theory Spec2Isabelle
  imports Main "HOL-Library.Word" "HOL-Library.Sublist" "HOL-Library.Code_Target_Numeral"
begin

section \<open>State persistence of artisan_lib (bindings/c/state_persistence.c)\<close>

text \<open>
  The C binding saves four fields of an \<open>AppState\<close> to a text file and reads them back.
  The two functions \<open>save_state\<close> and \<open>load_state\<close> are embedded below together with the
  part of the C library they call (\<open>fopen\<close>, \<open>fprintf\<close>, \<open>fgets\<close>, \<open>strcspn\<close>, \<open>strdup\<close>,
  \<open>fscanf\<close>), each as a function on byte lists.
\<close>

subsection \<open>Bytes and C strings\<close>

abbreviation NUL :: char where
  "NUL \<equiv> CHR 0x00"

abbreviation NL :: char where
  "NL \<equiv> CHR 0x0A"

text \<open>
  A \<open>const char *\<close> field points to a NUL-terminated string: its value is the list of the
  bytes before the terminator, so it holds no NUL byte itself. Null pointers are not
  modelled (the functions below dereference every string they are given).
\<close>

typedef cstring = "{s :: string. NUL \<notin> set s}"
  morphisms chars Abs_cstring
  by (rule exI [of _ "[]"]) simp

setup_lifting type_definition_cstring

text \<open>
  \<open>strdup buf\<close> copies the string that starts at the beginning of a buffer: the bytes up
  to the first NUL. Allocation is assumed to succeed.
\<close>

lift_definition strdup :: "string \<Rightarrow> cstring" is
  "takeWhile (\<lambda>c. c \<noteq> NUL)"
  by (auto dest: set_takeWhileD)

text \<open>Two C strings are compared by their bytes, as \<open>strcmp\<close> does.\<close>

instantiation cstring :: equal
begin

lift_definition equal_cstring :: "cstring \<Rightarrow> cstring \<Rightarrow> bool" is
  "\<lambda>s t. s = t" .

instance
  by standard (simp add: equal_cstring.rep_eq chars_inject)

end

text \<open>
  \<open>strcspn s reject\<close>: the length of the longest prefix of the string at \<open>s\<close> that holds
  no byte of \<open>reject\<close>.
\<close>

definition strcspn :: "string \<Rightarrow> string \<Rightarrow> nat" where
  "strcspn s reject = length (takeWhile (\<lambda>c. c \<noteq> NUL \<and> c \<notin> set reject) s)"

subsection \<open>The records of state_persistence.h\<close>

type_synonym uint32_t = "32 word"
type_synonym uint64_t = "64 word"
type_synonym c_int = "32 word" \<comment> \<open>\<open>int\<close>, read in two's complement\<close>

record Aggregator =
  socket_path :: cstring
  socket_permission :: uint32_t

record GitConfig =
  default_server :: cstring
  credentials_file :: cstring

record DatabaseConfig =
  url :: cstring
  pool_size :: uint32_t

text \<open>A pointer to a nested structure is \<open>None\<close> when null; an array pointer is a list.\<close>

record AppConfig =
  app_name :: cstring
  max_ram_usage :: uint64_t
  max_cpu_usage :: uint64_t
  environment :: cstring
  debug_mode :: c_int
  log_level :: cstring
  git :: "GitConfig option"
  database :: "DatabaseConfig option"
  aggregator :: "Aggregator option"

record ErrorItem =
  err_type :: cstring
  err_mesg :: cstring

record Output =
  timestamp :: uint64_t
  line :: cstring

record AppState =
  name :: cstring
  version :: cstring
  data :: cstring
  status :: cstring
  pid :: uint32_t
  last_updated :: uint64_t
  stared_at :: uint64_t
  event_counter :: uint32_t
  error_log :: "ErrorItem list"
  error_log_len :: uint32_t
  config :: AppConfig
  system_application :: c_int
  stdout_entries :: "Output list"
  stdout_len :: uint32_t
  stderr_entries :: "Output list"
  stderr_len :: uint32_t

subsection \<open>Files\<close>

text \<open>
  The file system as the two functions see it: the bytes of every file that
  \<open>fopen(path, "r")\<close> can open, and the paths that \<open>fopen(path, "w")\<close> can open
  (creating or truncating the file). A stream opened for reading is the list of the bytes
  not read yet; a stream opened for writing is the list of the bytes written so far.
  Read and write errors after a successful \<open>fopen\<close> are not modelled (the source does not
  check for them either), and a file that was written can be opened for reading.
\<close>

record filesystem =
  contents :: "cstring \<rightharpoonup> string"
  writable :: "cstring \<Rightarrow> bool"

definition fopen_r :: "filesystem \<Rightarrow> cstring \<Rightarrow> string option" where
  "fopen_r fs path = contents fs path"

definition fopen_w :: "filesystem \<Rightarrow> cstring \<Rightarrow> string option" where
  "fopen_w fs path = (if writable fs path then Some [] else None)"

definition fclose_w :: "filesystem \<Rightarrow> cstring \<Rightarrow> string \<Rightarrow> filesystem" where
  "fclose_w fs path f = fs\<lparr>contents := (contents fs)(path \<mapsto> f)\<rparr>"

subsection \<open>Formatted output\<close>

definition digit_char :: "nat \<Rightarrow> char" where
  "digit_char d = char_of (of_char CHR ''0'' + d)"

text \<open>The conversion \<open>%u\<close>: the decimal numeral of an unsigned value, no leading zeros.\<close>

fun decimal :: "nat \<Rightarrow> string" where
  "decimal n =
     (if n < 10 then [digit_char n] else decimal (n div 10) @ [digit_char (n mod 10)])"

declare decimal.simps [simp del]

definition print_u :: "uint32_t \<Rightarrow> string" where
  "print_u w = decimal (unat w)"

text \<open>
  \<open>fprintf(f, "%s\n%s\n%u\n%u\n", state->name, state->version, state->pid,
  state->event_counter)\<close> appends to the stream.
\<close>

definition fprintf_state :: "string \<Rightarrow> AppState \<Rightarrow> string" where
  "fprintf_state f state =
     f @ chars (name state) @ [NL] @ chars (version state) @ [NL]
       @ print_u (pid state) @ [NL] @ print_u (event_counter state) @ [NL]"

definition save_state :: "AppState \<Rightarrow> cstring \<Rightarrow> filesystem \<Rightarrow> int \<times> filesystem" where
  "save_state state path fs =
     (case fopen_w fs path of
        None \<Rightarrow> (- 1, fs)
      | Some f \<Rightarrow> (0, fclose_w fs path (fprintf_state f state)))"

subsection \<open>Line and number input\<close>

text \<open>
  \<open>fgets(buf, n, f)\<close> stores at most \<open>n - 1\<close> bytes, stops after a newline, and
  terminates them with NUL; it returns null, storing nothing, when the stream is at its
  end. \<open>read_line k f\<close> is the bytes it takes from \<open>f\<close> for \<open>k = n - 1\<close>.
\<close>

fun read_line :: "nat \<Rightarrow> string \<Rightarrow> string" where
  "read_line k [] = []"
| "read_line k (c # f) =
     (if k = 0 then [] else if c = NL then [c] else c # read_line (k - 1) f)"

definition fgets :: "nat \<Rightarrow> string \<Rightarrow> (string \<times> string) option" where
  "fgets n f =
     (if f = [] then None
      else let l = read_line (n - 1) f in Some (l @ [NUL], drop (length l) f))"

definition isspace :: "char \<Rightarrow> bool" where
  "isspace c = (c \<in> set [CHR '' '', CHR 0x09, CHR 0x0A, CHR 0x0B, CHR 0x0C, CHR 0x0D])"

definition isdigit :: "char \<Rightarrow> bool" where
  "isdigit c = ((of_char CHR ''0'' :: nat) \<le> of_char c \<and> (of_char c :: nat) \<le> of_char CHR ''9'')"

definition skip_space :: "string \<Rightarrow> string" where
  "skip_space f = dropWhile isspace f"

definition digits_value :: "string \<Rightarrow> nat" where
  "digits_value ds = foldl (\<lambda>v c. 10 * v + (of_char c - of_char CHR ''0'')) 0 ds"

datatype scan_failure = InputFailure | MatchingFailure

text \<open>
  The conversion \<open>%u\<close> of \<open>fscanf\<close>: skip white space, take an optional sign and then the
  longest run of decimal digits. When the input ends before the first byte of the item
  the conversion fails with an input failure; when the item is empty or only a sign, with
  a matching failure. The value is converted as \<open>strtoul\<close> does, a minus sign negating it
  in the unsigned type. C leaves a value that does not fit the object undefined; here it
  wraps to 32 bits.
\<close>

definition scan_u :: "string \<Rightarrow> scan_failure + (uint32_t \<times> string)" where
  "scan_u f =
     (let f1 = skip_space f;
          neg = (case f1 of c # _ \<Rightarrow> c = CHR ''-'' | [] \<Rightarrow> False);
          f2 = (case f1 of c # r \<Rightarrow> if c = CHR ''-'' \<or> c = CHR ''+'' then r else f1 | [] \<Rightarrow> []);
          ds = takeWhile isdigit f2;
          v = (of_nat (digits_value ds) :: uint32_t)
      in if ds = [] then Inl (if f1 = [] then InputFailure else MatchingFailure)
         else Inr (if neg then - v else v, dropWhile isdigit f2))"

abbreviation EOF :: int where
  "EOF \<equiv> - 1"

text \<open>
  \<open>fscanf(f, "%u\n%u\n", &state->pid, &state->event_counter)\<close>: each conversion stores
  its value as soon as it succeeds; white space in the format skips any white space of
  the input. The result is the number of values stored, or \<open>EOF\<close> on an input failure
  before the first of them.
\<close>

definition fscanf_u_u :: "string \<Rightarrow> AppState \<Rightarrow> int \<times> AppState" where
  "fscanf_u_u f state =
     (case scan_u f of
        Inl InputFailure \<Rightarrow> (EOF, state)
      | Inl MatchingFailure \<Rightarrow> (0, state)
      | Inr (v1, f1) \<Rightarrow>
          (let state1 = state\<lparr>pid := v1\<rparr> in
           case scan_u (skip_space f1) of
             Inl _ \<Rightarrow> (1, state1)
           | Inr (v2, f2) \<Rightarrow> (2, state1\<lparr>event_counter := v2\<rparr>)))"

definition load_state :: "AppState \<Rightarrow> cstring \<Rightarrow> filesystem \<Rightarrow> int \<times> AppState" where
  "load_state state path fs =
     (case fopen_r fs path of
        None \<Rightarrow> (- 1, state)
      | Some f \<Rightarrow>
          (case fgets 256 f of
             None \<Rightarrow> (- 1, state)
           | Some (name0, f1) \<Rightarrow>
               (case fgets 256 f1 of
                  None \<Rightarrow> (- 1, state)
                | Some (version0, f2) \<Rightarrow>
                    (let name1 = name0[strcspn name0 [NL] := NUL];
                         version1 = version0[strcspn version0 [NL] := NUL];
                         state1 = state\<lparr>name := strdup name1\<rparr>;
                         state2 = state1\<lparr>version := strdup version1\<rparr>;
                         (n, state3) = fscanf_u_u f2 state2
                     in if n \<noteq> 2 then (- 1, state3) else (0, state3)))))"

subsection \<open>Notions of the specification\<close>

text \<open>
  The lines of a text: the newline-terminated lines in order, and the bytes after the last
  newline.
\<close>

fun split_lines :: "string \<Rightarrow> string list \<times> string" where
  "split_lines [] = ([], [])"
| "split_lines (c # f) =
     (case split_lines f of
        (ls, r) \<Rightarrow>
          if c = NL then ([] # ls, r)
          else (case ls of [] \<Rightarrow> ([], c # r) | l # ls' \<Rightarrow> ((c # l) # ls', r)))"


text \<open>
  A parseable unsigned integer is an optional sign and at least one decimal digit. A text
  has two of them ahead when it starts with white space, an integer, white space and a
  second integer, where the second one does not continue the digits of the first.
\<close>

definition number_text :: "string \<Rightarrow> bool" where
  "number_text t \<longleftrightarrow>
     (\<exists>sg ds. t = sg @ ds \<and> (sg = [] \<or> sg = ''+'' \<or> sg = ''-'') \<and> ds \<noteq> []
        \<and> list_all isdigit ds)"

definition two_numbers_ahead :: "string \<Rightarrow> bool" where
  "two_numbers_ahead f \<longleftrightarrow>
     (\<exists>w1 n1 w2 n2 r. f = w1 @ n1 @ w2 @ n2 @ r \<and> list_all isspace w1 \<and> number_text n1
        \<and> list_all isspace w2 \<and> number_text n2 \<and> (w2 \<noteq> [] \<or> \<not> isdigit (hd n2)))"

subsection \<open>Sample values\<close>

text \<open>
  A record with empty strings, zero numbers and null pointers; the record of the
  specification's scenario; a record whose other fields are set; records with a newline
  in the name and with a name of 255 bytes; a path; a file system that holds no file and
  lets every path be created; file systems with one file; and the texts of files with
  overlong lines. The theorems are instantiated with them.
\<close>

definition blank_config :: AppConfig where
  "blank_config =
     \<lparr>app_name = strdup [], max_ram_usage = 0, max_cpu_usage = 0, environment = strdup [],
      debug_mode = 0, log_level = strdup [], git = None, database = None, aggregator = None\<rparr>"

definition blank_state :: AppState where
  "blank_state =
     \<lparr>name = strdup [], version = strdup [], data = strdup [], status = strdup [], pid = 0,
      last_updated = 0, stared_at = 0, event_counter = 0, error_log = [], error_log_len = 0,
      config = blank_config, system_application = 0, stdout_entries = [], stdout_len = 0,
      stderr_entries = [], stderr_len = 0\<rparr>"

definition agent_state :: AppState where
  "agent_state =
     blank_state\<lparr>name := strdup ''agent'', version := strdup ''1.0.0'', pid := 4242, event_counter := 7\<rparr>"

definition running_state :: AppState where
  "running_state =
     blank_state\<lparr>name := strdup ''old'', version := strdup ''0.9'', data := strdup ''payload'',
       status := strdup ''running'', pid := 17, last_updated := 1700000100,
       stared_at := 1700000000, event_counter := 3, error_log_len := 2,
       system_application := 1, stdout_len := 5, stderr_len := 1\<rparr>"

definition two_line_name_state :: AppState where
  "two_line_name_state = blank_state\<lparr>name := strdup ''a\<newline>b''\<rparr>"

definition long_name_state :: AppState where
  "long_name_state = agent_state\<lparr>name := strdup (replicate 255 CHR ''a'')\<rparr>"

definition state_path :: cstring where
  "state_path = strdup ''state.txt''"

definition empty_fs :: filesystem where
  "empty_fs = \<lparr>contents = Map.empty, writable = (\<lambda>_. True)\<rparr>"

definition fs_with :: "string \<Rightarrow> filesystem" where
  "fs_with text = empty_fs\<lparr>contents := [state_path \<mapsto> text]\<rparr>"

definition two_chunk_line :: string where
  "two_chunk_line = replicate 255 CHR ''x'' @ replicate 255 CHR ''y'' @ ''1 2''"



section \<open>Properties of the C library functions\<close>

subsection \<open>C strings and line buffers\<close>

lemma chars_strdup: "chars (strdup s) = takeWhile (\<lambda>c. c \<noteq> NUL) s"
  by (rule strdup.rep_eq)

lemma NUL_notin_chars: "NUL \<notin> set (chars n)"
  using chars [of n] by simp

lemma strdup_chars: "strdup (chars n) = n"
proof -
  have "chars (strdup (chars n)) = chars n"
    using NUL_notin_chars [of n] by (auto simp: chars_strdup)
  then show ?thesis by (simp only: chars_inject)
qed

lemma strdup_eq_iff: "strdup s = n \<longleftrightarrow> takeWhile (\<lambda>c. c \<noteq> NUL) s = chars n"
  by (metis chars_strdup chars_inject)

text \<open>
  What \<open>load_state\<close> keeps of a buffer filled by \<open>fgets\<close>: the bytes before the first
  newline or NUL.
\<close>

lemma strip_newline:
  "takeWhile (\<lambda>c. c \<noteq> NUL) ((l @ [NUL])[strcspn (l @ [NUL]) [NL] := NUL])
     = takeWhile (\<lambda>c. c \<noteq> NUL \<and> c \<noteq> NL) l"
  unfolding strcspn_def by (induction l) auto

lemma takeWhile_both:
  "takeWhile (\<lambda>c. c \<noteq> NUL) (takeWhile (\<lambda>c. c \<noteq> NL) l) = takeWhile (\<lambda>c. c \<noteq> NUL \<and> c \<noteq> NL) l"
  by (induction l) auto

lemma stored_line:
  "strdup ((l @ [NUL])[strcspn (l @ [NUL]) [NL] := NUL]) = strdup (takeWhile (\<lambda>c. c \<noteq> NL) l)"
  by (simp add: strdup_eq_iff chars_strdup strip_newline takeWhile_both)

lemma stored_line_newline:
  "NL \<notin> set l \<Longrightarrow> strdup ((l @ [NL, NUL])[strcspn (l @ [NL, NUL]) [NL] := NUL]) = strdup l"
  using stored_line [of "l @ [NL]"] by (simp add: takeWhile_append)

subsection \<open>Decimal output\<close>

lemma isdigit_digit_char: "d < 10 \<Longrightarrow> isdigit (digit_char d)"
  by (simp add: isdigit_def digit_char_def)

lemma value_digit_char: "d < 10 \<Longrightarrow> (of_char (digit_char d) :: nat) - 48 = d"
  by (simp add: digit_char_def)

lemma decimal_nonempty: "decimal n \<noteq> []"
  by (subst decimal.simps) simp

lemma decimal_digits: "list_all isdigit (decimal n)"
proof (induction n rule: decimal.induct)
  case (1 n)
  show ?case
  proof (cases "n < 10")
    case True
    then show ?thesis by (subst decimal.simps) (simp add: isdigit_digit_char)
  next
    case False
    then show ?thesis using 1 by (subst decimal.simps) (simp add: isdigit_digit_char)
  qed
qed

lemma digits_value_snoc:
  "digits_value (ds @ [c]) = 10 * digits_value ds + (of_char c - of_char CHR ''0'')"
  by (simp add: digits_value_def)

lemma digits_value_decimal: "digits_value (decimal n) = n"
proof (induction n rule: decimal.induct)
  case (1 n)
  show ?case
  proof (cases "n < 10")
    case True
    then show ?thesis
      by (subst decimal.simps) (simp add: digits_value_def value_digit_char)
  next
    case False
    then have "digits_value (decimal n) = 10 * (n div 10) + n mod 10"
      using 1 by (subst decimal.simps) (simp add: digits_value_snoc value_digit_char)
    then show ?thesis by simp
  qed
qed

lemma digit_char_numeral:
  "digit_char 0 = CHR ''0''" "digit_char 1 = CHR ''1''" "digit_char 2 = CHR ''2''"
  "digit_char 3 = CHR ''3''" "digit_char 4 = CHR ''4''" "digit_char 5 = CHR ''5''"
  "digit_char 6 = CHR ''6''" "digit_char 7 = CHR ''7''" "digit_char 8 = CHR ''8''"
  "digit_char 9 = CHR ''9''"
  by (simp_all add: digit_char_def char_of_def bit_Suc_0_iff)

lemma print_u_digits: "list_all isdigit (print_u w)" "digits_value (print_u w) = unat w"
  by (simp_all add: print_u_def decimal_digits digits_value_decimal)

lemma print_u_no_newline: "NL \<notin> set (print_u w)"
proof
  assume "NL \<in> set (print_u w)"
  then have "isdigit NL"
    using print_u_digits(1) [of w] by (simp add: list_all_iff)
  then show False by (simp add: isdigit_def)
qed

subsection \<open>White space and numbers\<close>

lemma isspace_not_isdigit: "isspace c \<Longrightarrow> \<not> isdigit c"
  by (auto simp: isspace_def isdigit_def)

lemma isdigit_not_sign: "isdigit c \<Longrightarrow> c \<noteq> CHR ''-'' \<and> c \<noteq> CHR ''+''"
  by (auto simp: isdigit_def)

lemma isspace_NL: "isspace NL"
  by (simp add: isspace_def)

lemma skip_space_idem: "skip_space (skip_space f) = skip_space f"
  by (simp add: skip_space_def)

lemma skip_space_append: "list_all isspace w \<Longrightarrow> skip_space (w @ f) = skip_space f"
  by (simp add: skip_space_def list_all_iff)

lemma skip_space_Cons: "\<not> isspace c \<Longrightarrow> skip_space (c # f) = c # f"
  by (simp add: skip_space_def)

lemma scan_u_skip_space: "scan_u (skip_space f) = scan_u f"
  by (simp add: scan_u_def skip_space_idem)

lemma scan_u_space: "list_all isspace w \<Longrightarrow> scan_u (w @ f) = scan_u f"
  by (simp add: scan_u_def skip_space_append)

lemma takeWhile_digits:
  "list_all isdigit ds \<Longrightarrow> takeWhile isdigit (ds @ r) = ds @ takeWhile isdigit r"
  by (simp add: list_all_iff)

lemma dropWhile_digits:
  "list_all isdigit ds \<Longrightarrow> dropWhile isdigit (ds @ r) = dropWhile isdigit r"
  by (simp add: list_all_iff)

lemma scan_u_digits:
  assumes "ds \<noteq> []" and "list_all isdigit ds"
  shows "scan_u (ds @ r) =
    Inr (of_nat (digits_value (ds @ takeWhile isdigit r)), dropWhile isdigit r)"
proof -
  obtain d ds' where ds: "ds = d # ds'"
    using assms(1) by (cases ds) auto
  have d: "isdigit d"
    using assms(2) ds by simp
  have skip: "skip_space (ds @ r) = ds @ r"
    using d ds isspace_not_isdigit [of d] by (auto simp: skip_space_def)
  have neg: "(case ds @ r of [] \<Rightarrow> False | c # _ \<Rightarrow> c = CHR ''-'') = False"
    using ds isdigit_not_sign [OF d] by simp
  have unsigned:
    "(case ds @ r of [] \<Rightarrow> [] | c # r' \<Rightarrow> if c = CHR ''-'' \<or> c = CHR ''+'' then r' else ds @ r)
       = ds @ r"
    using ds isdigit_not_sign [OF d] by simp
  show ?thesis
    unfolding scan_u_def Let_def skip neg unsigned
      takeWhile_digits [OF assms(2)] dropWhile_digits [OF assms(2)]
    using assms(1) by simp
qed

lemma scan_u_plus:
  assumes "ds \<noteq> []" and "list_all isdigit ds"
  shows "scan_u (CHR ''+'' # ds @ r) =
    Inr (of_nat (digits_value (ds @ takeWhile isdigit r)), dropWhile isdigit r)"
proof -
  have "skip_space (CHR ''+'' # ds @ r) = CHR ''+'' # ds @ r"
    by (rule skip_space_Cons) (simp add: isspace_def)
  then show ?thesis
    using assms by (simp add: scan_u_def takeWhile_digits dropWhile_digits)
qed

lemma scan_u_minus:
  assumes "ds \<noteq> []" and "list_all isdigit ds"
  shows "scan_u (CHR ''-'' # ds @ r) =
    Inr (- of_nat (digits_value (ds @ takeWhile isdigit r)), dropWhile isdigit r)"
proof -
  have "skip_space (CHR ''-'' # ds @ r) = CHR ''-'' # ds @ r"
    by (rule skip_space_Cons) (simp add: isspace_def)
  then show ?thesis
    using assms by (simp add: scan_u_def takeWhile_digits dropWhile_digits)
qed

lemma scan_u_print_u: "scan_u (print_u w @ NL # r) = Inr (w, NL # r)"
proof -
  have "\<not> isdigit NL"
    by (simp add: isdigit_def)
  then show ?thesis
    unfolding print_u_def
    by (simp add: scan_u_digits [OF decimal_nonempty decimal_digits] digits_value_decimal)
qed

lemma scan_u_number:
  assumes "number_text n"
  shows "\<exists>v. scan_u (n @ r) = Inr (v, dropWhile isdigit r)"
proof -
  obtain sg ds where n: "n = sg @ ds" and sg: "sg = [] \<or> sg = ''+'' \<or> sg = ''-''"
    and ds: "ds \<noteq> []" "list_all isdigit ds"
    using assms unfolding number_text_def by blast
  from sg show ?thesis
  proof (elim disjE)
    assume "sg = []"
    then show ?thesis using n scan_u_digits [OF ds, of r] by simp
  next
    assume "sg = ''+''"
    then show ?thesis using n scan_u_plus [OF ds, of r] by simp
  next
    assume "sg = ''-''"
    then show ?thesis using n scan_u_minus [OF ds, of r] by simp
  qed
qed

lemma number_text_hd:
  assumes "number_text n"
  shows "n \<noteq> [] \<and> \<not> isspace (hd n)"
proof -
  obtain sg ds where n: "n = sg @ ds" and sg: "sg = [] \<or> sg = ''+'' \<or> sg = ''-''"
    and ds: "ds \<noteq> []" "list_all isdigit ds"
    using assms unfolding number_text_def by blast
  obtain d ds' where d: "ds = d # ds'" "isdigit d"
    using ds by (cases ds) auto
  have "\<not> isspace d"
    using d(2) isspace_not_isdigit by blast
  then show ?thesis
    using sg n d(1) by (auto simp: isspace_def)
qed

lemma dropWhile_no_digit: "f = [] \<or> \<not> isdigit (hd f) \<Longrightarrow> dropWhile isdigit f = f"
  by (cases f) auto

text \<open>
  A successful conversion has consumed white space and the text of a number, and stops
  before a byte that is not a digit.
\<close>

lemma scan_u_Inr_text:
  assumes "scan_u f = Inr (v, f')"
  shows "\<exists>w n. f = w @ n @ f' \<and> list_all isspace w \<and> number_text n
           \<and> (f' = [] \<or> \<not> isdigit (hd f'))"
proof -
  define w where "w = takeWhile isspace f"
  define f1 where "f1 = skip_space f"
  define f2 where "f2 = (case f1 of c # r \<Rightarrow> if c = CHR ''-'' \<or> c = CHR ''+'' then r else f1 | [] \<Rightarrow> [])"
  define ds where "ds = takeWhile isdigit f2"
  have ds: "ds \<noteq> []" and f': "f' = dropWhile isdigit f2"
    using assms unfolding scan_u_def Let_def f1_def [symmetric] f2_def [symmetric] ds_def [symmetric]
    by (auto split: if_splits)
  have f: "f = w @ f1"
    by (simp add: w_def f1_def skip_space_def)
  have w: "list_all isspace w"
    by (auto simp: w_def list_all_iff dest: set_takeWhileD)
  have f2: "f2 = ds @ f'"
    by (simp add: ds_def f')
  have digits: "list_all isdigit ds"
    by (auto simp: ds_def list_all_iff dest: set_takeWhileD)
  have "\<exists>sg. f1 = sg @ f2 \<and> (sg = [] \<or> sg = ''+'' \<or> sg = ''-'')"
  proof (cases f1)
    case Nil
    then show ?thesis using ds by (simp add: f2_def ds_def)
  next
    case (Cons c r)
    then show ?thesis by (auto simp: f2_def)
  qed
  then obtain sg where sg: "f1 = sg @ f2" "sg = [] \<or> sg = ''+'' \<or> sg = ''-''"
    by blast
  have "number_text (sg @ ds)"
    unfolding number_text_def using sg(2) ds digits by blast
  moreover have "f = w @ (sg @ ds) @ f'"
    using f sg(1) f2 by simp
  moreover have "f' = [] \<or> \<not> isdigit (hd f')"
    unfolding f' using hd_dropWhile [of isdigit f2] by blast
  ultimately show ?thesis
    using w by blast
qed

subsection \<open>The two conversions of fscanf\<close>

lemma no_numbers_Nil: "\<not> two_numbers_ahead []"
  by (auto simp: two_numbers_ahead_def number_text_def)

text \<open>
  \<open>fscanf\<close> stores both values exactly when the text has two numbers ahead in the sense
  of the specification: the scanner and the declarative notion agree.
\<close>

lemma fscanf_u_u_two_iff: "fst (fscanf_u_u f st) = 2 \<longleftrightarrow> two_numbers_ahead f"
proof
  assume "fst (fscanf_u_u f st) = 2"
  then obtain v1 f1 v2 f2 where s1: "scan_u f = Inr (v1, f1)"
    and s2: "scan_u (skip_space f1) = Inr (v2, f2)"
    unfolding fscanf_u_u_def Let_def
    by (auto split: sum.splits scan_failure.splits prod.splits)
  from scan_u_Inr_text [OF s1] obtain w1 n1 where
    1: "f = w1 @ n1 @ f1" "list_all isspace w1" "number_text n1" "f1 = [] \<or> \<not> isdigit (hd f1)"
    by blast
  from s2 have "scan_u f1 = Inr (v2, f2)"
    by (simp add: scan_u_skip_space)
  from scan_u_Inr_text [OF this] obtain w2 n2 where
    2: "f1 = w2 @ n2 @ f2" "list_all isspace w2" "number_text n2"
    by blast
  have "w2 \<noteq> [] \<or> \<not> isdigit (hd n2)"
    using 1(4) 2(1) number_text_hd [OF 2(3)] by (cases w2) auto
  then show "two_numbers_ahead f"
    unfolding two_numbers_ahead_def using 1(1-3) 2 by blast
next
  assume "two_numbers_ahead f"
  then obtain w1 n1 w2 n2 r where f: "f = w1 @ n1 @ w2 @ n2 @ r"
    and w1: "list_all isspace w1" and n1: "number_text n1"
    and w2: "list_all isspace w2" and n2: "number_text n2"
    and sep: "w2 \<noteq> [] \<or> \<not> isdigit (hd n2)"
    unfolding two_numbers_ahead_def by blast
  define x where "x = w2 @ n2 @ r"
  have "x \<noteq> [] \<and> \<not> isdigit (hd x)"
    using sep w2 number_text_hd [OF n2] isspace_not_isdigit
    by (cases w2) (auto simp: x_def)
  then have x: "dropWhile isdigit x = x"
    by (simp add: dropWhile_no_digit)
  obtain v1 where s1: "scan_u f = Inr (v1, x)"
    using scan_u_number [OF n1, of x] x by (auto simp: f x_def [symmetric] scan_u_space [OF w1])
  obtain v2 where s2: "scan_u x = Inr (v2, dropWhile isdigit r)"
    using scan_u_number [OF n2, of r] by (auto simp: x_def scan_u_space [OF w2])
  show "fst (fscanf_u_u f st) = 2"
    by (simp add: fscanf_u_u_def s1 scan_u_skip_space s2)
qed

lemma fscanf_u_u_frame:
  "snd (fscanf_u_u f st) =
     st\<lparr>pid := pid (snd (fscanf_u_u f st)), event_counter := event_counter (snd (fscanf_u_u f st))\<rparr>"
  by (simp add: fscanf_u_u_def Let_def split: sum.splits scan_failure.splits prod.splits)

lemma fscanf_u_u_failure:
  "fst (fscanf_u_u f st) \<noteq> 2 \<Longrightarrow> snd (fscanf_u_u f st) = st\<lparr>pid := pid (snd (fscanf_u_u f st))\<rparr>"
  by (simp add: fscanf_u_u_def Let_def split: sum.splits scan_failure.splits prod.splits)

lemma fscanf_u_u_name: "name (snd (fscanf_u_u f st)) = name st"
  and fscanf_u_u_version: "version (snd (fscanf_u_u f st)) = version st"
  by (simp_all add: fscanf_u_u_def Let_def split: sum.splits scan_failure.splits prod.splits)

lemma fscanf_u_u_pid:
  "pid (snd (fscanf_u_u f st)) = (case scan_u f of Inl _ \<Rightarrow> pid st | Inr (v, _) \<Rightarrow> v)"
  by (simp add: fscanf_u_u_def Let_def split: sum.splits scan_failure.splits prod.splits)

lemma fscanf_u_u_two:
  "scan_u f = Inr (v1, f1) \<Longrightarrow> scan_u f1 = Inr (v2, f2)
     \<Longrightarrow> fscanf_u_u f st = (2, st\<lparr>pid := v1, event_counter := v2\<rparr>)"
  by (simp add: fscanf_u_u_def scan_u_skip_space)

lemma fscanf_u_u_one:
  "scan_u f = Inr (v1, f1) \<Longrightarrow> scan_u f1 = Inl e
     \<Longrightarrow> fscanf_u_u f st = (1, st\<lparr>pid := v1\<rparr>)"
  by (simp add: fscanf_u_u_def scan_u_skip_space)

lemma fscanf_u_u_skip_space: "fscanf_u_u (skip_space f) st = fscanf_u_u f st"
  by (simp add: fscanf_u_u_def scan_u_skip_space)

lemma fscanf_u_u_space: "list_all isspace w \<Longrightarrow> fscanf_u_u (w @ f) st = fscanf_u_u f st"
  by (simp add: fscanf_u_u_def scan_u_space)

lemma fscanf_u_u_printed:
  "fscanf_u_u (print_u p @ NL # print_u e @ [NL]) st = (2, st\<lparr>pid := p, event_counter := e\<rparr>)"
proof (rule fscanf_u_u_two)
  show "scan_u (print_u p @ NL # print_u e @ [NL]) = Inr (p, NL # print_u e @ [NL])"
    by (rule scan_u_print_u)
  show "scan_u (NL # print_u e @ [NL]) = Inr (e, [NL])"
    using scan_u_space [of "[NL]" "print_u e @ [NL]"] scan_u_print_u [of e "[]"]
    by (simp add: isspace_NL)
qed

subsection \<open>Reading a line\<close>

lemma read_line_take: "NL \<notin> set (take k f) \<Longrightarrow> read_line k f = take k f"
proof (induction k f rule: read_line.induct)
  case (1 k)
  then show ?case by simp
next
  case (2 k c f)
  then show ?case by (cases k) auto
qed

lemma read_line_newline:
  "NL \<notin> set l \<Longrightarrow> length l < k \<Longrightarrow> read_line k (l @ NL # r) = l @ [NL]"
proof (induction l arbitrary: k)
  case Nil
  then show ?case by simp
next
  case (Cons c l)
  then show ?case by (cases k) auto
qed

lemma read_line_is_prefix: "take (length (read_line k f)) f = read_line k f"
  by (induction k f rule: read_line.induct) auto

text \<open>
  The first \<open>fgets\<close> uses up the file exactly when the file is at most \<open>k\<close> bytes long
  and has no newline before its last byte.
\<close>

lemma read_line_all_iff: "read_line k f = f \<longleftrightarrow> length f \<le> k \<and> NL \<notin> set (butlast f)"
proof (induction k f rule: read_line.induct)
  case (1 k)
  then show ?case by simp
next
  case (2 k c f)
  then show ?case by (cases k) auto
qed

lemma read_line_rest_empty:
  "drop (length (read_line k f)) f = [] \<longleftrightarrow> length f \<le> k \<and> NL \<notin> set (butlast f)"
proof -
  have "drop (length (read_line k f)) f = [] \<longleftrightarrow> read_line k f = f"
    using read_line_is_prefix [of k f]
    by (metis append_take_drop_id append_Nil2 drop_all order_refl)
  then show ?thesis by (simp add: read_line_all_iff)
qed

text \<open>From a text with no newline before its last byte \<open>fgets\<close> takes the first 255 bytes.\<close>

lemma single_line_chunk:
  assumes "NL \<notin> set (butlast g)"
  shows "drop (length (read_line 255 g)) g = drop 255 g"
proof (cases "length g \<le> 255")
  case True
  then have "read_line 255 g = g"
    using assms by (simp add: read_line_all_iff)
  then show ?thesis using True by simp
next
  case False
  then have "take 255 g = take 255 (butlast g)"
    by (simp add: take_butlast)
  then have "NL \<notin> set (take 255 g)"
    using assms set_take_subset [of 255 "butlast g"] by auto
  then have "read_line 255 g = take 255 g"
    by (rule read_line_take)
  then show ?thesis using False by simp
qed

lemma read_line_whole_line:
  assumes "NL \<notin> set v" and "length v \<le> 255"
  shows "takeWhile (\<lambda>c. c \<noteq> NL) (read_line 255 (v @ NL # r)) = v"
    and "skip_space (drop (length (read_line 255 (v @ NL # r))) (v @ NL # r)) = skip_space r"
proof -
  have "read_line 255 (v @ NL # r) = (if length v < 255 then v @ [NL] else v)"
    using assms by (simp add: read_line_newline read_line_take)
  then show "takeWhile (\<lambda>c. c \<noteq> NL) (read_line 255 (v @ NL # r)) = v"
    and "skip_space (drop (length (read_line 255 (v @ NL # r))) (v @ NL # r)) = skip_space r"
    using assms by (auto simp: takeWhile_append skip_space_def isspace_NL)
qed

lemma fgets_line:
  assumes "NL \<notin> set l" and "length l \<le> 254"
  shows "fgets 256 (l @ NL # r) = Some (l @ [NL, NUL], r)"
proof -
  have "read_line 255 (l @ NL # r) = l @ [NL]"
    using assms by (intro read_line_newline) auto
  then show ?thesis by (simp add: fgets_def)
qed


subsection \<open>The lines of a text\<close>

lemma split_lines_line:
  "NL \<notin> set l \<Longrightarrow> split_lines (l @ NL # f) = (l # fst (split_lines f), snd (split_lines f))"
  by (induction l) (auto split: prod.splits)

lemma length_split_lines: "length (fst (split_lines f)) = length (filter (\<lambda>c. c = NL) f)"
  by (induction f) (auto split: prod.splits list.splits)

section \<open>Properties of load_state\<close>

text \<open>
  \<open>load_state\<close> by stages: if the first \<open>fgets\<close> uses up the file (or the file is empty)
  the call fails with the record untouched; otherwise both reads succeed, name and
  version are stored, and the status is decided by \<open>fscanf\<close> on the rest of the text.
\<close>

lemma load_state_no_second_line:
  assumes "contents fs path = Some f" and "length f \<le> 255" and "NL \<notin> set (butlast f)"
  shows "load_state st path fs = (- 1, st)"
proof (cases "f = []")
  case True
  then show ?thesis using assms(1) by (simp add: load_state_def fopen_r_def fgets_def)
next
  case False
  have "drop (length (read_line 255 f)) f = []"
    using assms(2,3) read_line_rest_empty [of 255 f] by blast
  then show ?thesis
    using assms(1) False by (simp add: load_state_def fopen_r_def fgets_def Let_def)
qed

lemma load_state_two_reads:
  assumes "contents fs path = Some f"
    and "\<not> (length f \<le> 255 \<and> NL \<notin> set (butlast f))"
    and "l1 = read_line 255 f" and "f1 = drop (length l1) f"
    and "l2 = read_line 255 f1" and "f2 = drop (length l2) f1"
    and "st2 = st\<lparr>name := strdup (takeWhile (\<lambda>c. c \<noteq> NL) l1),
                   version := strdup (takeWhile (\<lambda>c. c \<noteq> NL) l2)\<rparr>"
  shows "load_state st path fs =
           (if fst (fscanf_u_u f2 st2) \<noteq> 2 then - 1 else 0, snd (fscanf_u_u f2 st2))"
proof -
  have f: "f \<noteq> []"
    using assms(2) by auto
  have f1: "f1 \<noteq> []"
    using assms(2) read_line_rest_empty [of 255 f] unfolding assms(3,4) by blast
  have r1: "fgets 256 f = Some (l1 @ [NUL], f1)"
    using f by (simp add: fgets_def Let_def assms(3,4))
  have r2: "fgets 256 f1 = Some (l2 @ [NUL], f2)"
    using f1 by (simp add: fgets_def Let_def assms(5,6))
  show ?thesis
    by (simp add: load_state_def fopen_r_def assms(1) r1 r2 Let_def stored_line assms(7)
        split: prod.splits)
qed

text \<open>
  A file that is one line is read in chunks of 255 bytes: as name, as version, and what
  follows the first 510 bytes as the numeric text.
\<close>

lemma load_state_one_line:
  assumes "contents fs path = Some f" and "NL \<notin> set (butlast f)"
  shows "fst (load_state st path fs) = (if two_numbers_ahead (drop 510 f) then 0 else - 1)"
proof (cases "length f \<le> 255")
  case True
  then show ?thesis
    using assms by (simp add: load_state_no_second_line no_numbers_Nil)
next
  case False
  then have long: "\<not> (length f \<le> 255 \<and> NL \<notin> set (butlast f))"
    by simp
  have "butlast (drop 255 f) = drop 255 (butlast f)"
    by (rule butlast_drop)
  then have "NL \<notin> set (butlast (drop 255 f))"
    using assms(2) set_drop_subset [of 255 "butlast f"] by auto
  then have rest: "drop (length (read_line 255 (drop 255 f)) + 255) f = drop 510 f"
    using single_line_chunk [of "drop 255 f"] by simp
  show ?thesis
    by (subst load_state_two_reads [OF assms(1) long refl refl refl refl refl])
      (simp add: single_line_chunk [OF assms(2)] rest fscanf_u_u_two_iff)
qed

lemma load_state_two_lines:
  assumes "contents fs path = Some (l1 @ NL # l2 @ NL # f2)"
    and "NL \<notin> set l1" and "length l1 \<le> 254" and "NL \<notin> set l2" and "length l2 \<le> 254"
    and "st2 = st\<lparr>name := strdup l1, version := strdup l2\<rparr>"
  shows "load_state st path fs =
           (if fst (fscanf_u_u f2 st2) \<noteq> 2 then - 1 else 0, snd (fscanf_u_u f2 st2))"
  by (simp add: load_state_def fopen_r_def assms(1) fgets_line [OF assms(2,3)]
      fgets_line [OF assms(4,5)] stored_line_newline [OF assms(2)] stored_line_newline [OF assms(4)]
      Let_def assms(6) split: prod.splits)

lemma load_state_name_line:
  assumes "contents fs path = Some (l1 @ NL # f1)"
    and "NL \<notin> set l1" and "length l1 \<le> 254" and "f1 \<noteq> []"
    and "l2 = read_line 255 f1" and "f2 = drop (length l2) f1"
    and "st2 = st\<lparr>name := strdup l1, version := strdup (takeWhile (\<lambda>c. c \<noteq> NL) l2)\<rparr>"
  shows "load_state st path fs =
           (if fst (fscanf_u_u f2 st2) \<noteq> 2 then - 1 else 0, snd (fscanf_u_u f2 st2))"
proof -
  have r2: "fgets 256 f1 = Some (l2 @ [NUL], f2)"
    using assms(4) by (simp add: fgets_def Let_def assms(5,6))
  show ?thesis
    by (simp add: load_state_def fopen_r_def assms(1) fgets_line [OF assms(2,3)] r2
        stored_line_newline [OF assms(2)] stored_line Let_def assms(7) split: prod.splits)
qed

text \<open>
  Whatever the outcome, only name, version, pid and event_counter can differ from the
  record passed in.
\<close>

lemma load_state_frame:
  "snd (load_state st path fs) =
     st\<lparr>name := name (snd (load_state st path fs)),
        version := version (snd (load_state st path fs)),
        pid := pid (snd (load_state st path fs)),
        event_counter := event_counter (snd (load_state st path fs))\<rparr>"
proof (cases "contents fs path")
  case None
  then show ?thesis by (simp add: load_state_def fopen_r_def)
next
  case (Some f)
  show ?thesis
  proof (cases "length f \<le> 255 \<and> NL \<notin> set (butlast f)")
    case True
    then show ?thesis by (simp add: load_state_no_second_line [OF Some])
  next
    case False
    show ?thesis
      by (subst (1 2 3 4 5) load_state_two_reads [OF Some False refl refl refl refl refl])
        (subst fscanf_u_u_frame, simp add: fscanf_u_u_name fscanf_u_u_version)
  qed
qed



section \<open>The two functions on the sample files\<close>

lemma decimal_4242: "decimal 4242 = ''4242''" and decimal_7: "decimal 7 = ''7''"
  by (simp_all add: decimal.simps digit_char_numeral)

lemma scan_u_4242_7: "scan_u ''4242\<newline>7\<newline>'' = Inr (4242, ''\<newline>7\<newline>'')"
  "scan_u ''\<newline>7\<newline>'' = Inr (7, ''\<newline>'')"
  using scan_u_print_u [of 4242 "''7\<newline>''"] scan_u_print_u [of 7 "[]"]
    scan_u_space [of "[NL]" "''7\<newline>''"]
  by (simp_all add: print_u_def decimal_4242 decimal_7 isspace_NL)

lemma scan_u_version_text:
  "fscanf_u_u ''1.0.0\<newline>4242\<newline>7\<newline>'' st = (1, st\<lparr>pid := 1\<rparr>)"
proof (rule fscanf_u_u_one)
  show "scan_u ''1.0.0\<newline>4242\<newline>7\<newline>'' = Inr (1, ''.0.0\<newline>4242\<newline>7\<newline>'')"
    using scan_u_digits [of "''1''" "''.0.0\<newline>4242\<newline>7\<newline>''"]
    by (simp add: isdigit_def digits_value_def)
  show "scan_u ''.0.0\<newline>4242\<newline>7\<newline>'' = Inl MatchingFailure"
    by (simp add: scan_u_def skip_space_def isspace_def isdigit_def)
qed

lemma fscanf_u_u_abc_def: "fscanf_u_u ''abc def\<newline>'' st = (0, st)"
  by (simp add: fscanf_u_u_def scan_u_def skip_space_def isspace_def isdigit_def)

lemma fscanf_u_u_1_2: "fscanf_u_u ''1 2\<newline>'' st = (2, st\<lparr>pid := 1, event_counter := 2\<rparr>)"
proof (rule fscanf_u_u_two)
  show "scan_u ''1 2\<newline>'' = Inr (1, '' 2\<newline>'')"
    using scan_u_digits [of "''1''" "'' 2\<newline>''"] by (simp add: isdigit_def digits_value_def)
  show "scan_u '' 2\<newline>'' = Inr (2, ''\<newline>'')"
    using scan_u_digits [of "''2''" "''\<newline>''"] scan_u_space [of "'' ''" "''2\<newline>''"]
    by (simp add: isdigit_def isspace_def digits_value_def)
qed

lemma no_numbers_abc_def: "\<not> two_numbers_ahead ''abc def\<newline>''"
  using fscanf_u_u_two_iff [of "''abc def\<newline>''" blank_state]
  by (simp add: fscanf_u_u_abc_def)



lemma numbers_on_two_lines: "two_numbers_ahead ''\<newline>4242\<newline>7\<newline>''"
proof -
  have "fscanf_u_u ''4242\<newline>7\<newline>'' blank_state = (2, blank_state\<lparr>pid := 4242, event_counter := 7\<rparr>)"
    by (rule fscanf_u_u_two) (rule scan_u_4242_7)+
  then have "fst (fscanf_u_u ''\<newline>4242\<newline>7\<newline>'' blank_state) = 2"
    using fscanf_u_u_space [of "[NL]" "''4242\<newline>7\<newline>''" blank_state] by (simp add: isspace_NL)
  then show ?thesis by (simp only: fscanf_u_u_two_iff)
qed

lemma load_state_agent_text:
  assumes "contents fs path = Some ''agent\<newline>1.0.0\<newline>4242\<newline>7\<newline>''"
  shows "load_state st path fs =
           (0, st\<lparr>name := strdup ''agent'', version := strdup ''1.0.0'', pid := 4242,
                  event_counter := 7\<rparr>)"
proof -
  have content: "contents fs path = Some (''agent'' @ NL # ''1.0.0'' @ NL # ''4242\<newline>7\<newline>'')"
    using assms by simp
  have scan: "fscanf_u_u ''4242\<newline>7\<newline>'' st2 = (2, st2\<lparr>pid := 4242, event_counter := 7\<rparr>)" for st2
    by (rule fscanf_u_u_two) (rule scan_u_4242_7)+
  show ?thesis
    by (subst load_state_two_lines [OF content _ _ _ _ refl]) (simp_all add: scan)
qed

lemma fscanf_u_u_12_def: "fscanf_u_u ''12 def\<newline>'' st = (1, st\<lparr>pid := 12\<rparr>)"
proof (rule fscanf_u_u_one)
  show "scan_u ''12 def\<newline>'' = Inr (12, '' def\<newline>'')"
    using scan_u_digits [of "''12''" "'' def\<newline>''"] by (simp add: isdigit_def digits_value_def)
  show "scan_u '' def\<newline>'' = Inl MatchingFailure"
    by (simp add: scan_u_def skip_space_def isspace_def isdigit_def)
qed

lemma load_state_12_def:
  "load_state st state_path (fs_with ''agent\<newline>1.0.0\<newline>12 def\<newline>'') =
     (- 1, st\<lparr>name := strdup ''agent'', version := strdup ''1.0.0'', pid := 12\<rparr>)"
proof -
  have content: "contents (fs_with ''agent\<newline>1.0.0\<newline>12 def\<newline>'') state_path =
      Some (''agent'' @ NL # ''1.0.0'' @ NL # ''12 def\<newline>'')"
    by (simp add: fs_with_def)
  show ?thesis
    by (subst load_state_two_lines [OF content _ _ _ _ refl])
      (simp_all add: fscanf_u_u_12_def)
qed

lemma load_state_abc_def:
  "load_state st state_path (fs_with ''agent\<newline>1.0.0\<newline>abc def\<newline>'') =
     (- 1, st\<lparr>name := strdup ''agent'', version := strdup ''1.0.0''\<rparr>)"
proof -
  have content: "contents (fs_with ''agent\<newline>1.0.0\<newline>abc def\<newline>'') state_path =
      Some (''agent'' @ NL # ''1.0.0'' @ NL # ''abc def\<newline>'')"
    by (simp add: fs_with_def)
  show ?thesis
    by (subst load_state_two_lines [OF content _ _ _ _ refl])
      (simp_all add: fscanf_u_u_abc_def)
qed

lemma load_state_two_chunk_line:
  "load_state st state_path (fs_with (two_chunk_line @ [NL])) =
     (0, st\<lparr>name := strdup (replicate 255 CHR ''x''), version := strdup (replicate 255 CHR ''y''),
            pid := 1, event_counter := 2\<rparr>)"
proof -
  define f where "f = two_chunk_line @ [NL]"
  have content: "contents (fs_with (two_chunk_line @ [NL])) state_path = Some f"
    by (simp add: fs_with_def f_def)
  have long: "\<not> (length f \<le> 255 \<and> NL \<notin> set (butlast f))"
    by (simp add: f_def two_chunk_line_def)
  have l1: "read_line 255 f = replicate 255 CHR ''x''"
    by (subst read_line_take) (simp_all add: f_def two_chunk_line_def)
  have f1: "drop (length (read_line 255 f)) f = replicate 255 CHR ''y'' @ ''1 2\<newline>''"
    by (simp add: l1) (simp add: f_def two_chunk_line_def)
  have l2: "read_line 255 (replicate 255 CHR ''y'' @ ''1 2\<newline>'') = replicate 255 CHR ''y''"
    by (subst read_line_take) simp_all
  show ?thesis
    by (subst load_state_two_reads [OF content long refl refl refl refl refl])
      (simp add: f1 l2 fscanf_u_u_1_2, simp add: l1)
qed



section \<open>The claims of the specification\<close>

text \<open>
  C1 (round trip), as the code has it. \<open>load_state\<close> reads each line into a buffer of 256
  bytes, so the law holds when the lines fit: for every record whose name and version
  hold no newline, with a name of fewer than 255 bytes and a version of at most 255
  bytes, \<open>save_state\<close> to a path that can be opened for writing followed by \<open>load_state\<close>
  on the resulting file returns success and a record whose name, version, pid and event
  counter equal the original's (the other fields are those of the record passed in).
\<close>

theorem save_load_roundtrip:
  assumes "NL \<notin> set (chars (name s))" and "NL \<notin> set (chars (version s))"
    and "length (chars (name s)) < 255" and "length (chars (version s)) \<le> 255"
    and "writable fs path"
  shows "fst (save_state s path fs) = 0
         \<and> load_state st path (snd (save_state s path fs)) =
             (0, st\<lparr>name := name s, version := version s, pid := pid s,
                    event_counter := event_counter s\<rparr>)"
proof -
  define f2 where "f2 = print_u (pid s) @ NL # print_u (event_counter s) @ [NL]"
  define f1 where "f1 = chars (version s) @ NL # f2"
  define l2 where "l2 = read_line 255 f1"
  define fs' where "fs' = snd (save_state s path fs)"
  have saved: "fst (save_state s path fs) = 0"
    and content: "contents fs' path = Some (chars (name s) @ NL # f1)"
    using assms(5)
    by (simp_all add: fs'_def save_state_def fopen_w_def fclose_w_def fprintf_state_def
        f1_def f2_def)
  have version_line: "takeWhile (\<lambda>c. c \<noteq> NL) l2 = chars (version s)"
    and rest: "skip_space (drop (length l2) f1) = skip_space f2"
    unfolding l2_def f1_def by (rule read_line_whole_line [OF assms(2,4)])+
  have scan: "fscanf_u_u (drop (length l2) f1) st2 =
      (2, st2\<lparr>pid := pid s, event_counter := event_counter s\<rparr>)" for st2
    using fscanf_u_u_skip_space [of "drop (length l2) f1" st2]
      fscanf_u_u_skip_space [of f2 st2] fscanf_u_u_printed [of "pid s" "event_counter s" st2]
    by (simp add: rest f2_def)
  have nonempty: "f1 \<noteq> []"
    by (simp add: f1_def)
  have short: "length (chars (name s)) \<le> 254"
    using assms(3) by simp
  have "load_state st path fs' =
      (0, st\<lparr>name := name s, version := version s, pid := pid s,
             event_counter := event_counter s\<rparr>)"
    by (subst load_state_name_line [OF content assms(1) short nonempty l2_def refl refl])
      (simp add: version_line strdup_chars scan)
  then show ?thesis
    using saved by (simp add: fs'_def)
qed

theorem save_load_roundtrip_witness:
  "NL \<notin> set (chars (name agent_state)) \<and> NL \<notin> set (chars (version agent_state))
     \<and> length (chars (name agent_state)) < 255 \<and> length (chars (version agent_state)) \<le> 255
     \<and> writable empty_fs state_path
     \<and> fst (save_state agent_state state_path empty_fs) = 0
     \<and> load_state blank_state state_path (snd (save_state agent_state state_path empty_fs))
           = (0, agent_state)"
proof -
  have h: "NL \<notin> set (chars (name agent_state))" "NL \<notin> set (chars (version agent_state))"
    "length (chars (name agent_state)) < 255" "length (chars (version agent_state)) \<le> 255"
    "writable empty_fs state_path"
    by (simp_all add: agent_state_def empty_fs_def chars_strdup)
  show ?thesis
    using h save_load_roundtrip [OF h, of blank_state]
    by (simp add: agent_state_def)
qed

text \<open>
  The law fails without the bound: with a name of 255 bytes the first \<open>fgets\<close> leaves the
  newline of the name line unread, the version is read as the empty string, the version
  line is scanned for the numbers, and \<open>load_state\<close> fails.
\<close>

theorem roundtrip_long_name_counterexample:
  "NL \<notin> set (chars (name long_name_state)) \<and> NL \<notin> set (chars (version long_name_state))
     \<and> fst (save_state long_name_state state_path empty_fs) = 0
     \<and> fst (load_state blank_state state_path (snd (save_state long_name_state state_path empty_fs)))
           = - 1
     \<and> version (snd (load_state blank_state state_path
           (snd (save_state long_name_state state_path empty_fs))))
         \<noteq> version long_name_state"
proof -
  define f where "f = replicate 255 CHR ''a'' @ ''\<newline>1.0.0\<newline>4242\<newline>7\<newline>''"
  define fs' where "fs' = snd (save_state long_name_state state_path empty_fs)"
  have cs: "chars (name long_name_state) = replicate 255 CHR ''a''"
    "chars (version long_name_state) = ''1.0.0''"
    by (simp_all add: long_name_state_def agent_state_def chars_strdup)
  have saved: "fst (save_state long_name_state state_path empty_fs) = 0"
    and content: "contents fs' state_path = Some f"
    by (simp_all add: fs'_def save_state_def fopen_w_def fclose_w_def fprintf_state_def empty_fs_def
        chars_strdup f_def print_u_def long_name_state_def agent_state_def decimal_4242 decimal_7)
  have long: "\<not> (length f \<le> 255 \<and> NL \<notin> set (butlast f))"
    by (simp add: f_def)
  have l1: "read_line 255 f = replicate 255 CHR ''a''"
    by (subst read_line_take) (simp_all add: f_def)
  have f1: "drop (length (read_line 255 f)) f = ''\<newline>1.0.0\<newline>4242\<newline>7\<newline>''"
    by (simp add: l1) (simp add: f_def)
  have l2: "read_line 255 ''\<newline>1.0.0\<newline>4242\<newline>7\<newline>'' = [NL]"
    using read_line_newline [of "[]" 255 "''1.0.0\<newline>4242\<newline>7\<newline>''"] by simp
  have "load_state blank_state state_path fs' =
      (- 1, blank_state\<lparr>name := strdup (replicate 255 CHR ''a''), version := strdup [], pid := 1\<rparr>)"
    by (subst load_state_two_reads [OF content long refl refl refl refl refl])
      (simp add: f1 l2 scan_u_version_text, simp add: l1)
  moreover have "version long_name_state = strdup ''1.0.0''"
    by (simp add: long_name_state_def agent_state_def)
  ultimately show ?thesis
    using saved cs unfolding fs'_def [symmetric]
    by (simp add: strdup_eq_iff chars_strdup)
qed

text \<open>
  C2 (failure and the output record), as the code has it. \<open>load_state\<close> stores name and
  version as soon as both lines are read and lets \<open>fscanf\<close> store pid as soon as the first
  integer is parsed. So: every failure returns \<open>-1\<close> and leaves event_counter and every
  field that is not persisted as they were; a failure at the open stage or at a
  line-reading stage (no readable file, or a file that is empty or used up by the first
  \<open>fgets\<close>) leaves the whole record as it was; and a failure at the numeric stage finds
  name and version already overwritten with the two lines read, and pid overwritten with
  the first integer if one was parsed there and as it was otherwise.
\<close>

theorem load_state_failure:
  assumes "load_state st path fs = (rc, st')" and "rc \<noteq> 0"
  shows "rc = - 1
    \<and> st' = st\<lparr>name := name st', version := version st', pid := pid st'\<rparr>
    \<and> (case contents fs path of
          None \<Rightarrow> st' = st
        | Some f \<Rightarrow>
            if length f \<le> 255 \<and> NL \<notin> set (butlast f) then st' = st
            else name st' = strdup (takeWhile (\<lambda>c. c \<noteq> NL) (read_line 255 f))
              \<and> version st' = strdup (takeWhile (\<lambda>c. c \<noteq> NL)
                    (read_line 255 (drop (length (read_line 255 f)) f)))
              \<and> pid st' =
                  (case scan_u
                      (drop (length (read_line 255 (drop (length (read_line 255 f)) f)))
                        (drop (length (read_line 255 f)) f)) of
                     Inl _ \<Rightarrow> pid st
                   | Inr (v, _) \<Rightarrow> v))"
proof (cases "contents fs path")
  case None
  then show ?thesis
    using assms by (simp add: load_state_def fopen_r_def)
next
  case (Some f)
  show ?thesis
  proof (cases "length f \<le> 255 \<and> NL \<notin> set (butlast f)")
    case True
    then show ?thesis
      using assms Some by (simp add: load_state_no_second_line [OF Some])
  next
    case False
    define f1 where "f1 = drop (length (read_line 255 f)) f"
    define f2 where "f2 = drop (length (read_line 255 f1)) f1"
    define st2 where "st2 = st\<lparr>name := strdup (takeWhile (\<lambda>c. c \<noteq> NL) (read_line 255 f)),
      version := strdup (takeWhile (\<lambda>c. c \<noteq> NL) (read_line 255 f1))\<rparr>"
    have load: "load_state st path fs =
        (if fst (fscanf_u_u f2 st2) \<noteq> 2 then - 1 else 0, snd (fscanf_u_u f2 st2))"
      by (rule load_state_two_reads [OF Some False refl f1_def refl f2_def st2_def])
    then have failed: "fst (fscanf_u_u f2 st2) \<noteq> 2" and rc: "rc = - 1"
      and st': "st' = snd (fscanf_u_u f2 st2)"
      using assms by (auto split: if_splits)
    have names: "name st' = name st2" "version st' = version st2"
      by (simp_all add: st' fscanf_u_u_name fscanf_u_u_version)
    have parsed: "pid st' = (case scan_u f2 of Inl _ \<Rightarrow> pid st | Inr (v, _) \<Rightarrow> v)"
      by (simp add: st' fscanf_u_u_pid st2_def split: sum.splits)
    have "st' = st2\<lparr>pid := pid st'\<rparr>"
      unfolding st' by (rule fscanf_u_u_failure [OF failed])
    then have frame: "st' = st\<lparr>name := name st', version := version st', pid := pid st'\<rparr>"
      unfolding names by (simp add: st2_def)
    show ?thesis
    proof (intro conjI)
      show "rc = - 1" by (rule rc)
      show "st' = st\<lparr>name := name st', version := version st', pid := pid st'\<rparr>"
        by (rule frame)
      show "case contents fs path of
          None \<Rightarrow> st' = st
        | Some f \<Rightarrow>
            if length f \<le> 255 \<and> NL \<notin> set (butlast f) then st' = st
            else name st' = strdup (takeWhile (\<lambda>c. c \<noteq> NL) (read_line 255 f))
              \<and> version st' = strdup (takeWhile (\<lambda>c. c \<noteq> NL)
                    (read_line 255 (drop (length (read_line 255 f)) f)))
              \<and> pid st' =
                  (case scan_u
                      (drop (length (read_line 255 (drop (length (read_line 255 f)) f)))
                        (drop (length (read_line 255 f)) f)) of
                     Inl _ \<Rightarrow> pid st
                   | Inr (v, _) \<Rightarrow> v)"
        using False parsed unfolding Some f2_def f1_def
        by (auto simp: names st2_def f1_def)
    qed
  qed
qed

theorem load_state_failure_witness:
  "load_state running_state state_path (fs_with ''agent\<newline>1.0.0\<newline>abc def\<newline>'') =
     (- 1, running_state\<lparr>name := strdup ''agent'', version := strdup ''1.0.0''\<rparr>)
   \<and> (- 1 :: int) \<noteq> 0
   \<and> pid (running_state\<lparr>name := strdup ''agent'', version := strdup ''1.0.0''\<rparr>) = pid running_state
   \<and> load_state running_state state_path (fs_with ''agent\<newline>1.0.0\<newline>12 def\<newline>'') =
     (- 1, running_state\<lparr>name := strdup ''agent'', version := strdup ''1.0.0'', pid := 12\<rparr>)
   \<and> load_state running_state state_path (fs_with ''agent\<newline>'') = (- 1, running_state)"
proof -
  have h: "load_state running_state state_path (fs_with ''agent\<newline>1.0.0\<newline>abc def\<newline>'') =
      (- 1, running_state\<lparr>name := strdup ''agent'', version := strdup ''1.0.0''\<rparr>)"
    "(- 1 :: int) \<noteq> 0"
    by (simp_all add: load_state_abc_def)
  have i: "load_state running_state state_path (fs_with ''agent\<newline>1.0.0\<newline>12 def\<newline>'') =
      (- 1, running_state\<lparr>name := strdup ''agent'', version := strdup ''1.0.0'', pid := 12\<rparr>)"
    by (rule load_state_12_def)
  have k: "load_state running_state state_path (fs_with ''agent\<newline>'') = (- 1, running_state)"
    by (rule load_state_no_second_line [of _ _ "''agent\<newline>''"]) (simp_all add: fs_with_def)
  note facts = load_state_failure [OF h] load_state_failure [OF i h(2)] load_state_failure [OF k h(2)]
  show ?thesis
    using h i k facts by (simp add: running_state_def)
qed

text \<open>
  With "abc def" as the third line the call fails and the name of the record has changed.
\<close>

theorem load_state_failure_mutates_counterexample:
  "fst (load_state running_state state_path (fs_with ''agent\<newline>1.0.0\<newline>abc def\<newline>'')) = - 1
   \<and> name (snd (load_state running_state state_path
         (fs_with ''agent\<newline>1.0.0\<newline>abc def\<newline>''))) = strdup ''agent''
   \<and> name running_state = strdup ''old''
   \<and> strdup ''agent'' \<noteq> strdup ''old''"
  by (simp add: load_state_abc_def running_state_def strdup_eq_iff chars_strdup)

text \<open>
  C3 (concrete scenario). For the record with name "agent", version "1.0.0", pid 4242 and
  event counter 7, \<open>save_state\<close> succeeds on a path that can be opened for writing and
  leaves exactly the text "agent\n1.0.0\n4242\n7\n" in the file; \<open>load_state\<close> on a file
  with that text succeeds and stores exactly these four values, whatever the record held
  before.
\<close>

theorem agent_scenario:
  assumes "name s = strdup ''agent''" and "version s = strdup ''1.0.0''"
    and "pid s = 4242" and "event_counter s = 7"
    and "writable fs path"
    and "contents fs' path' = Some ''agent\<newline>1.0.0\<newline>4242\<newline>7\<newline>''"
  shows "save_state s path fs =
           (0, fs\<lparr>contents := (contents fs)(path \<mapsto> ''agent\<newline>1.0.0\<newline>4242\<newline>7\<newline>'')\<rparr>)
         \<and> load_state st path' fs' =
           (0, st\<lparr>name := strdup ''agent'', version := strdup ''1.0.0'', pid := 4242,
                  event_counter := 7\<rparr>)"
proof
  show "save_state s path fs =
          (0, fs\<lparr>contents := (contents fs)(path \<mapsto> ''agent\<newline>1.0.0\<newline>4242\<newline>7\<newline>'')\<rparr>)"
    using assms(1-5)
    by (simp add: save_state_def fopen_w_def fclose_w_def fprintf_state_def chars_strdup
        print_u_def decimal_4242 decimal_7)
next
  show "load_state st path' fs' =
          (0, st\<lparr>name := strdup ''agent'', version := strdup ''1.0.0'', pid := 4242,
                 event_counter := 7\<rparr>)"
    by (rule load_state_agent_text [OF assms(6)])
qed

theorem agent_scenario_witness:
  "name agent_state = strdup ''agent'' \<and> version agent_state = strdup ''1.0.0''
     \<and> pid agent_state = 4242 \<and> event_counter agent_state = 7
     \<and> writable empty_fs state_path
     \<and> contents (fs_with ''agent\<newline>1.0.0\<newline>4242\<newline>7\<newline>'') state_path
           = Some ''agent\<newline>1.0.0\<newline>4242\<newline>7\<newline>''
     \<and> save_state agent_state state_path empty_fs
           = (0, fs_with ''agent\<newline>1.0.0\<newline>4242\<newline>7\<newline>'')
     \<and> load_state blank_state state_path (fs_with ''agent\<newline>1.0.0\<newline>4242\<newline>7\<newline>'')
           = (0, agent_state)"
proof -
  have h: "name agent_state = strdup ''agent''" "version agent_state = strdup ''1.0.0''"
    "pid agent_state = 4242" "event_counter agent_state = 7"
    "writable empty_fs state_path"
    "contents (fs_with ''agent\<newline>1.0.0\<newline>4242\<newline>7\<newline>'') state_path
       = Some ''agent\<newline>1.0.0\<newline>4242\<newline>7\<newline>''"
    by (simp_all add: agent_state_def empty_fs_def fs_with_def)
  show ?thesis
    using h agent_scenario [OF h, of blank_state]
    by (simp add: fs_with_def empty_fs_def agent_state_def)
qed

text \<open>
  C4 (file format). When name and version hold no newline, the file that \<open>save_state\<close>
  writes is the name, the version, the pid and the event counter, in this order, each
  followed by one newline and nothing else: split at its newlines the text is exactly
  these four lines with nothing after the last newline, and the two numeric lines are the
  decimal numerals of the two values.
\<close>

theorem save_state_four_lines:
  assumes "NL \<notin> set (chars (name s))" and "NL \<notin> set (chars (version s))"
    and "writable fs path"
  shows "\<exists>text. save_state s path fs = (0, fs\<lparr>contents := (contents fs)(path \<mapsto> text)\<rparr>)
           \<and> text = chars (name s) @ [NL] @ chars (version s) @ [NL]
                    @ print_u (pid s) @ [NL] @ print_u (event_counter s) @ [NL]
           \<and> split_lines text =
                 ([chars (name s), chars (version s), print_u (pid s), print_u (event_counter s)], [])
           \<and> list_all isdigit (print_u (pid s)) \<and> digits_value (print_u (pid s)) = unat (pid s)
           \<and> list_all isdigit (print_u (event_counter s))
           \<and> digits_value (print_u (event_counter s)) = unat (event_counter s)"
proof -
  have "split_lines (chars (name s) @ NL # chars (version s) @ NL
          # print_u (pid s) @ NL # print_u (event_counter s) @ NL # []) =
        ([chars (name s), chars (version s), print_u (pid s), print_u (event_counter s)], [])"
    by (simp add: split_lines_line assms(1,2) print_u_no_newline)
  then show ?thesis
    using assms(3)
    by (simp add: save_state_def fopen_w_def fclose_w_def fprintf_state_def print_u_digits)
qed

theorem save_state_four_lines_witness:
  "NL \<notin> set (chars (name agent_state)) \<and> NL \<notin> set (chars (version agent_state))
     \<and> writable empty_fs state_path
     \<and> split_lines ''agent\<newline>1.0.0\<newline>4242\<newline>7\<newline>'' = ([''agent'', ''1.0.0'', ''4242'', ''7''], [])
     \<and> save_state agent_state state_path empty_fs
           = (0, fs_with ''agent\<newline>1.0.0\<newline>4242\<newline>7\<newline>'')"
proof -
  have h: "NL \<notin> set (chars (name agent_state))" "NL \<notin> set (chars (version agent_state))"
    "writable empty_fs state_path"
    by (simp_all add: agent_state_def empty_fs_def chars_strdup)
  show ?thesis
    using h save_state_four_lines [OF h]
    by (simp add: fs_with_def empty_fs_def agent_state_def chars_strdup print_u_def
        decimal_4242 decimal_7)
qed

text \<open>
  C5 (missing file). At a path where no readable file exists, \<open>load_state\<close> returns the
  failure status \<open>-1\<close> and the caller's record is returned as it was: no field is
  written.
\<close>

theorem load_state_missing_file:
  assumes "contents fs path = None"
  shows "load_state st path fs = (- 1, st)"
  using assms by (simp add: load_state_def fopen_r_def)

theorem load_state_missing_file_witness:
  "contents empty_fs state_path = None
     \<and> load_state blank_state state_path empty_fs = (- 1, blank_state)"
proof -
  have none: "contents empty_fs state_path = None"
    by (simp add: empty_fs_def)
  show ?thesis
    using none load_state_missing_file [OF none, of blank_state] by simp
qed

text \<open>
  C6 (truncated file), as the code has it. A file whose content is a single line (no
  newline before its last byte) is read in chunks of 255 bytes, as name, as version and
  as numeric text. \<open>load_state\<close> fails on it, returning its failure status \<open>-1\<close> (its only
  error value), unless the text after the first 510 bytes starts with two parseable
  integers; so it fails on every single-line file of at most 510 bytes.
\<close>

theorem load_state_single_line:
  assumes "contents fs path = Some f" and "f \<noteq> []" and "NL \<notin> set (butlast f)"
  shows "fst (load_state st path fs) = (if two_numbers_ahead (drop 510 f) then 0 else - 1)
       \<and> (length f \<le> 510 \<longrightarrow> fst (load_state st path fs) = - 1)"
  by (simp add: load_state_one_line [OF assms(1,3)] no_numbers_Nil)

theorem load_state_single_line_witness:
  "contents (fs_with ''agent\<newline>'') state_path = Some ''agent\<newline>'' \<and> ''agent\<newline>'' \<noteq> []
     \<and> NL \<notin> set (butlast ''agent\<newline>'') \<and> length ''agent\<newline>'' \<le> 510
     \<and> fst (load_state running_state state_path (fs_with ''agent\<newline>'')) = - 1
     \<and> contents (fs_with (replicate 300 CHR ''a'' @ [NL])) state_path
           = Some (replicate 300 CHR ''a'' @ [NL])
     \<and> replicate 300 CHR ''a'' @ [NL] \<noteq> []
     \<and> NL \<notin> set (butlast (replicate 300 CHR ''a'' @ [NL]))
     \<and> length (replicate 300 CHR ''a'' @ [NL]) \<le> 510
     \<and> fst (load_state running_state state_path (fs_with (replicate 300 CHR ''a'' @ [NL]))) = - 1"
proof -
  have h: "contents (fs_with ''agent\<newline>'') state_path = Some ''agent\<newline>''" "''agent\<newline>'' \<noteq> []"
    "NL \<notin> set (butlast ''agent\<newline>'')"
    by (simp_all add: fs_with_def)
  have k: "contents (fs_with (replicate 300 CHR ''a'' @ [NL])) state_path
        = Some (replicate 300 CHR ''a'' @ [NL])"
    "replicate 300 CHR ''a'' @ [NL] \<noteq> []"
    "NL \<notin> set (butlast (replicate 300 CHR ''a'' @ [NL]))"
    by (simp_all add: fs_with_def)
  show ?thesis
    using h k load_state_single_line [OF h, of running_state, THEN conjunct2]
      load_state_single_line [OF k, of running_state, THEN conjunct2]
    by simp
qed

text \<open>
  Not every single-line file fails: the first two \<open>fgets\<close> calls take 255 bytes each from
  the same line and \<open>fscanf\<close> reads what is left of it. The one-line file of 255 x, 255 y
  and "1 2" is loaded successfully.
\<close>

theorem single_long_line_counterexample:
  "split_lines (two_chunk_line @ [NL]) = ([two_chunk_line], [])
     \<and> fst (load_state blank_state state_path (fs_with (two_chunk_line @ [NL]))) = 0"
proof -
  have "NL \<notin> set two_chunk_line"
    by (simp add: two_chunk_line_def)
  then have "split_lines (two_chunk_line @ [NL]) = ([two_chunk_line], [])"
    by (simp add: split_lines_line)
  then show ?thesis
    by (simp add: load_state_two_chunk_line)
qed

text \<open>
  C7 (malformed numeric text), as the code has it. \<open>fscanf\<close> does not read a line: it
  skips white space, newlines included, before each integer. For every file whose first
  two lines fit the buffer (no more than 254 bytes before the newline), \<open>load_state\<close>
  fails, with status \<open>-1\<close>, exactly when the text after the second line does not start
  with two parseable integers (white space, an optionally signed decimal integer, white
  space, a second one); it succeeds when it does, whether the two integers stand on one
  line or on two and whatever blank lines precede them. With "abc def" as the third line
  it fails.
\<close>

theorem load_state_numeric_stage:
  assumes "contents fs path = Some (l1 @ NL # l2 @ NL # rest)"
    and "NL \<notin> set l1" and "length l1 \<le> 254" and "NL \<notin> set l2" and "length l2 \<le> 254"
  shows "fst (load_state st path fs) = (if two_numbers_ahead rest then 0 else - 1)"
  by (subst load_state_two_lines [OF assms refl]) (simp add: fscanf_u_u_two_iff)

theorem load_state_numeric_stage_witness:
  "contents (fs_with ''agent\<newline>1.0.0\<newline>abc def\<newline>'') state_path
      = Some (''agent'' @ NL # ''1.0.0'' @ NL # ''abc def\<newline>'')
   \<and> NL \<notin> set ''agent'' \<and> length ''agent'' \<le> 254
   \<and> NL \<notin> set ''1.0.0'' \<and> length ''1.0.0'' \<le> 254
   \<and> \<not> two_numbers_ahead ''abc def\<newline>''
   \<and> fst (load_state blank_state state_path (fs_with ''agent\<newline>1.0.0\<newline>abc def\<newline>'')) = - 1"
proof -
  have h: "contents (fs_with ''agent\<newline>1.0.0\<newline>abc def\<newline>'') state_path
      = Some (''agent'' @ NL # ''1.0.0'' @ NL # ''abc def\<newline>'')"
    "NL \<notin> set ''agent''" "length ''agent'' \<le> 254"
    "NL \<notin> set ''1.0.0''" "length ''1.0.0'' \<le> 254"
    by (simp_all add: fs_with_def)
  show ?thesis
    using h no_numbers_abc_def load_state_numeric_stage [OF h, of blank_state]
    by simp
qed

text \<open>
  A third line that holds no integer at all does not make the call fail: with an empty
  third line before the two numbers \<open>load_state\<close> succeeds.
\<close>

theorem blank_third_line_counterexample:
  "split_lines ''agent\<newline>1.0.0\<newline>\<newline>4242\<newline>7\<newline>''
      = ([''agent'', ''1.0.0'', [], ''4242'', ''7''], [])
   \<and> fst (load_state blank_state state_path
        (fs_with ''agent\<newline>1.0.0\<newline>\<newline>4242\<newline>7\<newline>'')) = 0"
proof -
  have content: "contents (fs_with ''agent\<newline>1.0.0\<newline>\<newline>4242\<newline>7\<newline>'') state_path
      = Some (''agent'' @ NL # ''1.0.0'' @ NL # ''\<newline>4242\<newline>7\<newline>'')"
    by (simp add: fs_with_def)
  have "fst (load_state blank_state state_path
      (fs_with ''agent\<newline>1.0.0\<newline>\<newline>4242\<newline>7\<newline>'')) = 0"
    by (subst load_state_two_lines [OF content _ _ _ _ refl])
      (simp_all add: fscanf_u_u_two_iff numbers_on_two_lines)
  then show ?thesis by simp
qed




text \<open>
  C9 (frame of decode). Whenever \<open>load_state\<close> succeeds, every field of the caller's
  \<open>AppState\<close> other than name, version, pid and event_counter (data, status, last_updated,
  stared_at, error_log, error_log_len, config, system_application, the stdout and stderr
  entries and their lengths) holds the value it held before the call.
\<close>

theorem load_state_other_fields:
  assumes "load_state st path fs = (0, st')"
  shows "data st' = data st \<and> status st' = status st \<and> last_updated st' = last_updated st
    \<and> stared_at st' = stared_at st \<and> error_log st' = error_log st
    \<and> error_log_len st' = error_log_len st \<and> config st' = config st
    \<and> system_application st' = system_application st
    \<and> stdout_entries st' = stdout_entries st \<and> stdout_len st' = stdout_len st
    \<and> stderr_entries st' = stderr_entries st \<and> stderr_len st' = stderr_len st"
proof -
  have "st' = st\<lparr>name := name st', version := version st', pid := pid st',
      event_counter := event_counter st'\<rparr>"
    using load_state_frame [of st path fs] assms by simp
  then obtain n v p e where "st' = st\<lparr>name := n, version := v, pid := p, event_counter := e\<rparr>"
    by blast
  then show ?thesis by simp
qed

theorem load_state_other_fields_witness:
  "load_state running_state state_path (fs_with ''agent\<newline>1.0.0\<newline>4242\<newline>7\<newline>'')
     = (0, running_state\<lparr>name := strdup ''agent'', version := strdup ''1.0.0'', pid := 4242,
             event_counter := 7\<rparr>)
   \<and> data (running_state\<lparr>name := strdup ''agent'', version := strdup ''1.0.0'', pid := 4242,
             event_counter := 7\<rparr>) = strdup ''payload''
   \<and> data running_state = strdup ''payload''"
proof -
  have h: "load_state running_state state_path
      (fs_with ''agent\<newline>1.0.0\<newline>4242\<newline>7\<newline>'')
        = (0, running_state\<lparr>name := strdup ''agent'', version := strdup ''1.0.0'', pid := 4242,
             event_counter := 7\<rparr>)"
    by (rule load_state_agent_text) (simp add: fs_with_def)
  show ?thesis
    using h load_state_other_fields [OF h] by (simp add: running_state_def)
qed

text \<open>
  C10 (no validation on save). When name or version holds a newline, \<open>save_state\<close> still
  returns success whenever the file can be opened for writing (and fails only when it
  cannot), and the file it writes then has more than four lines.
\<close>

theorem save_state_no_validation:
  assumes "NL \<in> set (chars (name s)) \<or> NL \<in> set (chars (version s))"
  shows "fst (save_state s path fs) = (if writable fs path then 0 else - 1)
         \<and> (writable fs path \<longrightarrow>
              (\<exists>text. contents (snd (save_state s path fs)) path = Some text
                 \<and> 4 < length (fst (split_lines text))))"
proof -
  define out where "out = fprintf_state [] s"
  define k where "k = length (filter (\<lambda>c. c = NL) (chars (name s)))
    + length (filter (\<lambda>c. c = NL) (chars (version s)))"
  have "0 < k"
    using assms by (auto simp: k_def filter_empty_conv)
  moreover have "filter (\<lambda>c. c = NL) (print_u w) = []" for w
    using print_u_no_newline [of w] by (auto simp: filter_empty_conv)
  then have "length (fst (split_lines out)) = 4 + k"
    by (simp add: out_def fprintf_state_def length_split_lines k_def)
  ultimately have "4 < length (fst (split_lines out))"
    by simp
  then show ?thesis
    by (simp add: save_state_def fopen_w_def fclose_w_def out_def)
qed

theorem save_state_no_validation_witness:
  "NL \<in> set (chars (name two_line_name_state))
     \<and> fst (save_state two_line_name_state state_path empty_fs) = 0
     \<and> contents (snd (save_state two_line_name_state state_path empty_fs)) state_path
           = Some ''a\<newline>b\<newline>\<newline>0\<newline>0\<newline>''
     \<and> length (fst (split_lines ''a\<newline>b\<newline>\<newline>0\<newline>0\<newline>'')) = 5"
proof -
  have h: "NL \<in> set (chars (name two_line_name_state))"
    by (simp add: two_line_name_state_def chars_strdup)
  have "decimal 0 = ''0''"
    by (simp add: decimal.simps digit_char_numeral)
  then show ?thesis
    using h save_state_no_validation [OF disjI1, OF h, of state_path empty_fs]
    by (simp add: save_state_def fopen_w_def fclose_w_def fprintf_state_def empty_fs_def
        two_line_name_state_def blank_state_def chars_strdup print_u_def)
qed

end
